theory Spec2Isabelle
  imports Complex_Main "HOL-Library.AList"
begin

section \<open>Python values the engine works on\<close>

text \<open>
  The exceptions that the modelled code can raise.  \<open>ValueError\<close> is what the
  constructor raises for a non-positive order (the spec's InvalidOrder condition).
  No copy of the engine defines an exception of its own.
\<close>

datatype error =
  ValueError | KeyError | IndexError | TypeError | UnboundLocalError | OverflowError

text \<open>
  A Python \<open>dict\<close> keeps its keys in insertion order, and \<open>random.choice\<close> and
  \<open>random.choices\<close> read that order, so a dict is an association list: storing under a
  key that is present replaces the value in place, storing under a new key appends.
\<close>

type_synonym ('k, 'v) dict = "('k \<times> 'v) list"

definition dict_get :: "('k, 'v) dict \<Rightarrow> 'k \<Rightarrow> 'v option" where
  "dict_get d k = map_of d k"

definition dict_contains :: "('k, 'v) dict \<Rightarrow> 'k \<Rightarrow> bool" where
  "dict_contains d k = (dict_get d k \<noteq> None)"

fun dict_set :: "('k, 'v) dict \<Rightarrow> 'k \<Rightarrow> 'v \<Rightarrow> ('k, 'v) dict" where
  "dict_set [] k v = [(k, v)]"
| "dict_set (p # ps) k v = (if fst p = k then (k, v) # ps else p # dict_set ps k v)"

definition dict_keys :: "('k, 'v) dict \<Rightarrow> 'k list" where
  "dict_keys d = map fst d"

definition dict_values :: "('k, 'v) dict \<Rightarrow> 'v list" where
  "dict_values d = map snd d"

text \<open>
  \<open>xs[a:b]\<close> and \<open>xs[j]\<close> with Python's treatment of negative and out-of-range
  positions: a slice clamps, an index raises \<open>IndexError\<close>.  The code indexes a \<open>str\<close>,
  whose items are again strings of one character.  A character of a Python string is a
  \<open>char\<close> here; nothing below depends on which characters there are.
\<close>

definition py_clamp :: "nat \<Rightarrow> int \<Rightarrow> nat" where
  "py_clamp n a = (if a < 0 then nat (int n + a) else min n (nat a))"

definition py_slice :: "'a list \<Rightarrow> int \<Rightarrow> int \<Rightarrow> 'a list" where
  "py_slice xs a b =
     (let lo = py_clamp (length xs) a; hi = py_clamp (length xs) b
      in take (hi - lo) (drop lo xs))"

definition py_slice_from :: "'a list \<Rightarrow> int \<Rightarrow> 'a list" where
  "py_slice_from xs a = drop (py_clamp (length xs) a) xs"

definition py_index :: "string \<Rightarrow> int \<Rightarrow> error + string" where
  "py_index text j =
     (let n = int (length text); j' = (if j < 0 then n + j else j)
      in if 0 \<le> j' \<and> j' < n then Inr [text ! nat j'] else Inl IndexError)"

section \<open>The model\<close>

text \<open>
  \<open>self.transitions\<close> maps a context to a dict from next character to count.  The record
  is polymorphic in the type of the table because \<open>from_dict\<close> stores whatever value it
  finds under \<open>"transitions"\<close>.
\<close>

type_synonym table = "(string, (string, int) dict) dict"

record 't MarkovChain =
  order :: int
  transitions :: 't

text \<open>\<open>MarkovChain.__init__\<close>\<close>

definition construct :: "int \<Rightarrow> error + table MarkovChain" where
  "construct k =
     (if k \<le> 0 then Inl ValueError
      else Inr \<lparr>order = k, transitions = []\<rparr>)"

section \<open>Training\<close>

text \<open>
  One iteration of the loop in \<open>MarkovChain.train\<close>, at position \<open>i\<close>.  The table
  is passed in and returned; an exception ends the call with no table.
\<close>

definition train_step :: "int \<Rightarrow> string \<Rightarrow> int \<Rightarrow> table \<Rightarrow> error + table" where
  "train_step k text i T =
     (let context = py_slice text i (i + k) in
      case py_index text (i + k) of
        Inl e \<Rightarrow> Inl e
      | Inr next_char \<Rightarrow>
          (let T1 = (if \<not> dict_contains T context then dict_set T context [] else T) in
           case dict_get T1 context of
             None \<Rightarrow> Inl KeyError
           | Some inner \<Rightarrow>
               (let inner1 = (if \<not> dict_contains inner next_char
                              then dict_set inner next_char 0 else inner) in
                case dict_get inner1 next_char of
                  None \<Rightarrow> Inl KeyError
                | Some c \<Rightarrow> Inr (dict_set T1 context (dict_set inner1 next_char (c + 1))))))"

fun train_loop :: "int \<Rightarrow> string \<Rightarrow> nat list \<Rightarrow> table \<Rightarrow> error + table" where
  "train_loop k text [] T = Inr T"
| "train_loop k text (i # rest) T =
     (case train_step k text (int i) T of
        Inl e \<Rightarrow> Inl e
      | Inr T' \<Rightarrow> train_loop k text rest T')"

text \<open>\<open>range(len(text) - self.order)\<close> is empty when the difference is not positive.\<close>

definition py_range :: "int \<Rightarrow> nat list" where
  "py_range n = [0..<nat n]"

definition train :: "table MarkovChain \<Rightarrow> string \<Rightarrow> error + table MarkovChain" where
  "train m text =
     (case train_loop (order m) text (py_range (int (length text) - order m)) (transitions m) of
        Inl e \<Rightarrow> Inl e
      | Inr T \<Rightarrow> Inr (m\<lparr>transitions := T\<rparr>))"

text \<open>A sequence of \<open>train\<close> calls on the same model.\<close>

fun train_all :: "table MarkovChain \<Rightarrow> string list \<Rightarrow> error + table MarkovChain" where
  "train_all m [] = Inr m"
| "train_all m (text # texts) =
     (case train m text of Inl e \<Rightarrow> Inl e | Inr m' \<Rightarrow> train_all m' texts)"

text \<open>
  What the table is compared with: the number of positions \<open>i\<close> with
  \<open>0 \<le> i \<le> len(text) - k - 1\<close> at which the window of \<open>k\<close> characters is \<open>c\<close> and the
  character after it is \<open>ch\<close>.
\<close>

definition occurrences :: "nat \<Rightarrow> string \<Rightarrow> string \<Rightarrow> char \<Rightarrow> nat" where
  "occurrences k text c ch =
     length (filter (\<lambda>i. take k (drop i text) = c \<and> text ! (i + k) = ch)
                    [0..<length text - k])"

definition total_occurrences :: "nat \<Rightarrow> string list \<Rightarrow> string \<Rightarrow> char \<Rightarrow> nat" where
  "total_occurrences k texts c ch = sum_list (map (\<lambda>text. occurrences k text c ch) texts)"

text \<open>The count stored for context \<open>c\<close> and next character \<open>s\<close>, if there is one.\<close>

definition entry :: "table \<Rightarrow> string \<Rightarrow> string \<Rightarrow> int option" where
  "entry T c s = (case dict_get T c of None \<Rightarrow> None | Some inner \<Rightarrow> dict_get inner s)"

definition count_of :: "table \<Rightarrow> string \<Rightarrow> char \<Rightarrow> int" where
  "count_of T c ch = (case entry T c [ch] of None \<Rightarrow> 0 | Some v \<Rightarrow> v)"

text \<open>Bookkeeping for the loop invariant of \<open>train\<close>.\<close>

definition hits :: "nat \<Rightarrow> string \<Rightarrow> nat list \<Rightarrow> string \<Rightarrow> string \<Rightarrow> nat" where
  "hits k text ps c s =
     length (filter (\<lambda>i. take k (drop i text) = c \<and> [text ! (i + k)] = s) ps)"

definition bump :: "int option \<Rightarrow> nat \<Rightarrow> int option" where
  "bump v n = (if n = 0 then v else Some ((case v of None \<Rightarrow> 0 | Some x \<Rightarrow> x) + int n))"

definition windows :: "nat \<Rightarrow> string \<Rightarrow> string set" where
  "windows k text = (\<lambda>i. take k (drop i text)) ` {0..<length text - k}"

text \<open>
  The tables that training builds: every context has \<open>k\<close> characters and a non-empty
  dict of single characters with counts of at least one; keys are not repeated.
\<close>

definition wf_inner :: "(string, int) dict \<Rightarrow> bool" where
  "wf_inner inner \<longleftrightarrow>
     inner \<noteq> [] \<and> distinct (map fst inner) \<and> list_all (\<lambda>(s, n). length s = 1 \<and> 1 \<le> n) inner"

definition wf_table :: "int \<Rightarrow> table \<Rightarrow> bool" where
  "wf_table k T \<longleftrightarrow>
     distinct (map fst T) \<and> list_all (\<lambda>(c, inner). int (length c) = k \<and> wf_inner inner) T"

text \<open>
  \<open>train\<close> of the copy batch_1770640212304/python-ai-stdlib-oracle_run_01, which
  creates the inner dict with its first entry and counts with \<open>dict.get\<close>.
\<close>

definition train_step_1770640212304_01 :: "int \<Rightarrow> string \<Rightarrow> int \<Rightarrow> table \<Rightarrow> error + table" where
  "train_step_1770640212304_01 k text i T =
     (let context = py_slice text i (i + k) in
      case py_index text (i + k) of
        Inl e \<Rightarrow> Inl e
      | Inr next_char \<Rightarrow>
          (if \<not> dict_contains T context then Inr (dict_set T context [(next_char, 1)])
           else case dict_get T context of
                  None \<Rightarrow> Inl KeyError
                | Some inner \<Rightarrow>
                    Inr (dict_set T context
                           (dict_set inner next_char
                              ((case dict_get inner next_char of None \<Rightarrow> 0 | Some c \<Rightarrow> c) + 1)))))"

fun train_loop_1770640212304_01 :: "int \<Rightarrow> string \<Rightarrow> nat list \<Rightarrow> table \<Rightarrow> error + table" where
  "train_loop_1770640212304_01 k text [] T = Inr T"
| "train_loop_1770640212304_01 k text (i # rest) T =
     (case train_step_1770640212304_01 k text (int i) T of
        Inl e \<Rightarrow> Inl e
      | Inr T' \<Rightarrow> train_loop_1770640212304_01 k text rest T')"

definition train_1770640212304_01 :: "table MarkovChain \<Rightarrow> string \<Rightarrow> error + table MarkovChain" where
  "train_1770640212304_01 m text =
     (case train_loop_1770640212304_01 (order m) text
             (py_range (int (length text) - order m)) (transitions m) of
        Inl e \<Rightarrow> Inl e
      | Inr T \<Rightarrow> Inr (m\<lparr>transitions := T\<rparr>))"

text \<open>
  \<open>__init__\<close> of the copy batch_1771703728306/python-ai-stdlib-oracle_run_01, which
  stores the order without looking at it.
\<close>

definition construct_1771703728306_01 :: "int \<Rightarrow> error + table MarkovChain" where
  "construct_1771703728306_01 k = Inr \<lparr>order = k, transitions = []\<rparr>"

section \<open>The random source\<close>

text \<open>
  The code draws from Python's module-level generator.  Its state is threaded through
  explicitly, and the generator itself is a parameter: \<open>random.seed\<close> on an integer and
  on a string, the integer draw below a bound that \<open>random.choice\<close> and
  \<open>random.randint\<close> use, and the draw from \<open>[0, 1)\<close> that \<open>random.choices\<close> uses.

  \<open>random.choices\<close> computes with floats.  The arithmetic of the platform is a
  parameter as well: \<open>rng_float\<close> is the conversion of an integer to a float, which
  raises \<open>OverflowError\<close> (the value \<open>None\<close>) for an integer that is too large, and
  \<open>rng_mul\<close> is the product of two floats, rounded as the platform rounds it.  A float
  is the real number it stands for; nothing is assumed about the rounding.
\<close>

record 'g rng =
  rng_seed :: "int \<Rightarrow> 'g"
  rng_seed_str :: "string \<Rightarrow> 'g"
  rng_randbelow :: "nat \<Rightarrow> 'g \<Rightarrow> nat \<times> 'g"
  rng_random :: "'g \<Rightarrow> real \<times> 'g"
  rng_float :: "int \<Rightarrow> real option"
  rng_mul :: "real \<Rightarrow> real \<Rightarrow> real"

definition rng_ok :: "'g rng \<Rightarrow> bool" where
  "rng_ok R \<longleftrightarrow>
     (\<forall>n g. 0 < n \<longrightarrow> fst (rng_randbelow R n g) < n) \<and>
     (\<forall>g. 0 \<le> fst (rng_random R g) \<and> fst (rng_random R g) < 1)"

text \<open>
  A small congruential generator, to run the model on concrete inputs.  Its draws from
  \<open>[0, 1)\<close> are sixteenths and its arithmetic is exact; on the small counts of the
  examples below the exact product is a float, so no rounding takes place there.
\<close>

definition lcg :: "nat rng" where
  "lcg = \<lparr>rng_seed = (\<lambda>s. nat \<bar>s\<bar> mod 16),
          rng_seed_str = (\<lambda>s. length s mod 16),
          rng_randbelow = (\<lambda>n g. (g mod n, (5 * g + 3) mod 16)),
          rng_random = (\<lambda>g. (real (g mod 16) / 16, (5 * g + 3) mod 16)),
          rng_float = (\<lambda>n. Some (real_of_int n)),
          rng_mul = (\<lambda>u t. u * t)\<rparr>"

text \<open>\<open>random.choice(seq)\<close>\<close>

definition choice :: "'g rng \<Rightarrow> 'a list \<Rightarrow> 'g \<Rightarrow> (error + 'a) \<times> 'g" where
  "choice R xs g =
     (if xs = [] then (Inl IndexError, g)
      else case rng_randbelow R (length xs) g of (i, g') \<Rightarrow> (Inr (xs ! i), g'))"

text \<open>\<open>random.randint(a, b)\<close>\<close>

definition randint :: "'g rng \<Rightarrow> int \<Rightarrow> int \<Rightarrow> 'g \<Rightarrow> (error + int) \<times> 'g" where
  "randint R a b g =
     (if b - a + 1 \<le> 0 then (Inl ValueError, g)
      else case rng_randbelow R (nat (b - a + 1)) g of (i, g') \<Rightarrow> (Inr (a + int i), g'))"

text \<open>
  \<open>random.choices(population, weights, k=1)[0]\<close>: the running sums of the weights, their
  total converted to a float, one draw multiplied by it, and a binary search
  (\<open>bisect_right\<close>) for the product over all but the last sum.  The sums are integers, and
  Python compares a float with an integer exactly.
\<close>

fun accumulate_from :: "int \<Rightarrow> int list \<Rightarrow> int list" where
  "accumulate_from acc [] = []"
| "accumulate_from acc (w # ws) = (acc + w) # accumulate_from (acc + w) ws"

definition accumulate :: "int list \<Rightarrow> int list" where
  "accumulate ws = accumulate_from 0 ws"

function bisect :: "int list \<Rightarrow> real \<Rightarrow> nat \<Rightarrow> nat \<Rightarrow> nat" where
  "bisect a x lo hi =
     (if lo < hi
      then (let mid = (lo + hi) div 2
            in if x < real_of_int (a ! mid) then bisect a x lo mid else bisect a x (mid + 1) hi)
      else lo)"
  by pat_completeness auto
termination
  by (relation "measure (\<lambda>(a, x, lo, hi). hi - lo)") auto

definition choices :: "'g rng \<Rightarrow> 'a list \<Rightarrow> int list \<Rightarrow> 'g \<Rightarrow> (error + 'a) \<times> 'g" where
  "choices R population weights g =
     (let n = length population; cum_weights = accumulate weights in
      if length cum_weights \<noteq> n then (Inl ValueError, g)
      else if cum_weights = [] then (Inl IndexError, g)
      else case rng_float R (last cum_weights) of
             None \<Rightarrow> (Inl OverflowError, g)
           | Some ftotal \<Rightarrow>
               if ftotal \<le> 0 then (Inl ValueError, g)
               else (case rng_random R g of
                       (u, g') \<Rightarrow>
                         (Inr (population ! bisect cum_weights (rng_mul R u ftotal) 0 (n - 1)),
                          g')))"

section \<open>Generation\<close>

text \<open>\<open>list(context)\<close>: the characters of a string, each a string of its own.\<close>

definition py_list :: "string \<Rightarrow> string list" where
  "py_list s = map (\<lambda>c. [c]) s"

text \<open>
  \<open>MarkovChain.generate\<close> of release_gate_after_best_patch_177182/python-ai-stdlib-oracle_run_09:
  the optional reseeding, the choice of the starting context, and the loop that runs
  \<open>length - order\<close> times.  \<open>self.transitions[context]\<close> raises \<open>KeyError\<close> for a context
  that is not a key.
\<close>

definition reseed :: "'g rng \<Rightarrow> int option \<Rightarrow> 'g \<Rightarrow> 'g" where
  "reseed R random_seed g = (case random_seed of None \<Rightarrow> g | Some S \<Rightarrow> rng_seed R S)"

definition initial_context ::
  "'g rng \<Rightarrow> table MarkovChain \<Rightarrow> string option \<Rightarrow> 'g \<Rightarrow> (error + string) \<times> 'g" where
  "initial_context R m seed g =
     (case seed of
        None \<Rightarrow> choice R (dict_keys (transitions m)) g
      | Some s \<Rightarrow>
          if int (length s) = order m then (Inr s, g)
          else choice R (dict_keys (transitions m)) g)"

fun walk ::
  "'g rng \<Rightarrow> table MarkovChain \<Rightarrow> nat \<Rightarrow> string \<Rightarrow> string list \<Rightarrow> 'g \<Rightarrow> (error + string) \<times> 'g" where
  "walk R m 0 context result g = (Inr (concat result), g)"
| "walk R m (Suc n) context result g =
     (case dict_get (transitions m) context of
        None \<Rightarrow> (Inl KeyError, g)
      | Some inner \<Rightarrow>
          (case choices R (dict_keys inner) (dict_values inner) g of
             (Inl e, g') \<Rightarrow> (Inl e, g')
           | (Inr next_char, g') \<Rightarrow>
               (let result' = result @ [next_char]
                in walk R m n (concat (py_slice_from result' (- order m))) result' g')))"

definition generate ::
  "'g rng \<Rightarrow> table MarkovChain \<Rightarrow> int \<Rightarrow> string option \<Rightarrow> int option \<Rightarrow> 'g
     \<Rightarrow> (error + string) \<times> 'g" where
  "generate R m len seed random_seed g =
     (case initial_context R m seed (reseed R random_seed g) of
        (Inl e, g') \<Rightarrow> (Inl e, g')
      | (Inr context, g') \<Rightarrow> walk R m (nat (len - order m)) context (py_list context) g')"

text \<open>
  \<open>generate\<close> of run_1768561810934: the same start, a walk that stops at a context with
  no entry, and the weighted draw written out with \<open>random.randint\<close> and a running
  total.
\<close>

fun pick_cumulative :: "(string, int) dict \<Rightarrow> int \<Rightarrow> int \<Rightarrow> string option" where
  "pick_cumulative [] rand_val cumulative_count = None"
| "pick_cumulative ((next_char, count) # rest) rand_val cumulative_count =
     (if rand_val \<le> cumulative_count + count then Some next_char
      else pick_cumulative rest rand_val (cumulative_count + count))"

text \<open>The total count of the entries that come before the entry for \<open>ch\<close>.\<close>

fun weight_before :: "(string, int) dict \<Rightarrow> string \<Rightarrow> int" where
  "weight_before [] ch = 0"
| "weight_before ((s, n) # rest) ch = (if s = ch then 0 else n + weight_before rest ch)"

fun walk_1768561810934 ::
  "'g rng \<Rightarrow> table MarkovChain \<Rightarrow> nat \<Rightarrow> string \<Rightarrow> string list \<Rightarrow> 'g \<Rightarrow> (error + string) \<times> 'g" where
  "walk_1768561810934 R m 0 context result g = (Inr (concat result), g)"
| "walk_1768561810934 R m (Suc n) context result g =
     (let next_char_options = (case dict_get (transitions m) context of
                                 None \<Rightarrow> [] | Some inner \<Rightarrow> inner)
      in if next_char_options = [] then (Inr (concat result), g)
         else case randint R 1 (sum_list (dict_values next_char_options)) g of
                (Inl e, g') \<Rightarrow> (Inl e, g')
              | (Inr rand_val, g') \<Rightarrow>
                  (case pick_cumulative next_char_options rand_val 0 of
                     None \<Rightarrow> walk_1768561810934 R m n context result g'
                   | Some next_char \<Rightarrow>
                       walk_1768561810934 R m n (py_slice_from context 1 @ next_char)
                         (result @ [next_char]) g'))"

definition generate_1768561810934 ::
  "'g rng \<Rightarrow> table MarkovChain \<Rightarrow> int \<Rightarrow> string option \<Rightarrow> int option \<Rightarrow> 'g
     \<Rightarrow> (error + string) \<times> 'g" where
  "generate_1768561810934 R m len seed random_seed g =
     (case initial_context R m seed (reseed R random_seed g) of
        (Inl e, g') \<Rightarrow> (Inl e, g')
      | (Inr context, g') \<Rightarrow>
          walk_1768561810934 R m (nat (len - order m)) context (py_list context) g')"

text \<open>
  \<open>generate\<close> of run_1768562193727: a seed is used only when it is a key of the table,
  and the walk stops at a context with no entry.
\<close>

fun walk_1768562193727 ::
  "'g rng \<Rightarrow> table MarkovChain \<Rightarrow> nat \<Rightarrow> string \<Rightarrow> string list \<Rightarrow> 'g \<Rightarrow> (error + string) \<times> 'g" where
  "walk_1768562193727 R m 0 context result g = (Inr (concat result), g)"
| "walk_1768562193727 R m (Suc n) context result g =
     (case dict_get (transitions m) context of
        None \<Rightarrow> (Inr (concat result), g)
      | Some next_chars \<Rightarrow>
          if next_chars = [] then (Inr (concat result), g)
          else (case choices R (dict_keys next_chars) (dict_values next_chars) g of
                  (Inl e, g') \<Rightarrow> (Inl e, g')
                | (Inr next_char, g') \<Rightarrow>
                    (let result' = result @ [next_char]
                     in walk_1768562193727 R m n (concat (py_slice_from result' (- order m)))
                          result' g')))"

definition generate_1768562193727 ::
  "'g rng \<Rightarrow> table MarkovChain \<Rightarrow> int \<Rightarrow> string option \<Rightarrow> int option \<Rightarrow> 'g
     \<Rightarrow> (error + string) \<times> 'g" where
  "generate_1768562193727 R m len seed random_seed g =
     (let g1 = reseed R random_seed g in
      case (case seed of
              None \<Rightarrow> choice R (dict_keys (transitions m)) g1
            | Some s \<Rightarrow>
                if int (length s) < order m \<or> \<not> dict_contains (transitions m) s
                then choice R (dict_keys (transitions m)) g1
                else (Inr (py_slice s 0 (order m)), g1)) of
        (Inl e, g') \<Rightarrow> (Inl e, g')
      | (Inr context, g') \<Rightarrow>
          walk_1768562193727 R m (nat (len - order m)) context (py_list context) g')"

text \<open>
  \<open>generate\<close> of batch_1770640212304/python-ai-stdlib-oracle_run_01: without a
  \<open>random_seed\<close> the generator is seeded with the seed string, any non-empty seed is cut
  to \<open>order\<close> characters and used, and the output holds the sampled characters only.
\<close>

fun walk_1770640212304_01 ::
  "'g rng \<Rightarrow> table MarkovChain \<Rightarrow> nat \<Rightarrow> string \<Rightarrow> string list \<Rightarrow> 'g \<Rightarrow> (error + string) \<times> 'g" where
  "walk_1770640212304_01 R m 0 context text g = (Inr (concat text), g)"
| "walk_1770640212304_01 R m (Suc n) context text g =
     (case dict_get (transitions m) context of
        None \<Rightarrow> (Inr (concat text), g)
      | Some inner \<Rightarrow>
          (case choices R (dict_keys inner) (dict_values inner) g of
             (Inl e, g') \<Rightarrow> (Inl e, g')
           | (Inr next_char, g') \<Rightarrow>
               walk_1770640212304_01 R m n (py_slice_from context 1 @ next_char)
                 (text @ [next_char]) g'))"

definition generate_1770640212304_01 ::
  "'g rng \<Rightarrow> table MarkovChain \<Rightarrow> int \<Rightarrow> string option \<Rightarrow> int option \<Rightarrow> 'g
     \<Rightarrow> (error + string) \<times> 'g" where
  "generate_1770640212304_01 R m len seed random_seed g =
     (let g1 = (case random_seed of
                  Some S \<Rightarrow> rng_seed R S
                | None \<Rightarrow> (case seed of
                              Some s \<Rightarrow> rng_seed_str R (py_slice s 0 (order m))
                            | None \<Rightarrow> g)) in
      case (case seed of
              None \<Rightarrow> choice R (dict_keys (transitions m)) g1
            | Some s \<Rightarrow>
                if s \<noteq> [] then (Inr (py_slice s 0 (order m)), g1)
                else choice R (dict_keys (transitions m)) g1) of
        (Inl e, g') \<Rightarrow> (Inl e, g')
      | (Inr context, g') \<Rightarrow> walk_1770640212304_01 R m (nat len) context [] g')"

text \<open>
  \<open>generate\<close> of batch_1770643297744/python-ai-stdlib-oracle_run_03: the next character
  is \<open>random.choice\<close> over the keys of the context's dict, the counts are not read.  The
  module \<open>random\<close> is imported inside the two seeding branches only, so with neither a
  \<open>random_seed\<close> nor a seed the name is unbound at its first use.
\<close>

fun walk_1770643297744_03 ::
  "'g rng \<Rightarrow> table MarkovChain \<Rightarrow> nat \<Rightarrow> string \<Rightarrow> string list \<Rightarrow> 'g \<Rightarrow> (error + string) \<times> 'g" where
  "walk_1770643297744_03 R m 0 context result g = (Inr (concat result), g)"
| "walk_1770643297744_03 R m (Suc n) context result g =
     (case dict_get (transitions m) context of
        None \<Rightarrow> (Inr (concat result), g)
      | Some inner \<Rightarrow>
          if length inner = 0 then (Inr (concat result), g)
          else (case choice R (dict_keys inner) g of
                  (Inl e, g') \<Rightarrow> (Inl e, g')
                | (Inr next_char, g') \<Rightarrow>
                    (let result' = result @ [next_char]
                     in walk_1770643297744_03 R m n (concat (py_slice_from result' (- order m)))
                          result' g')))"

definition generate_1770643297744_03 ::
  "'g rng \<Rightarrow> table MarkovChain \<Rightarrow> int \<Rightarrow> string option \<Rightarrow> int option \<Rightarrow> 'g
     \<Rightarrow> (error + string) \<times> 'g" where
  "generate_1770643297744_03 R m len seed random_seed g =
     (let g1 = (case random_seed of
                  Some S \<Rightarrow> rng_seed R S
                | None \<Rightarrow> (case seed of Some s \<Rightarrow> rng_seed_str R s | None \<Rightarrow> g)) in
      case (case seed of
              None \<Rightarrow> (if random_seed = None then (Inl UnboundLocalError, g1)
                        else choice R (dict_keys (transitions m)) g1)
            | Some s \<Rightarrow>
                if \<not> dict_contains (transitions m) s
                then choice R (dict_keys (transitions m)) g1
                else (Inr s, g1)) of
        (Inl e, g') \<Rightarrow> (Inl e, g')
      | (Inr context, g') \<Rightarrow>
          walk_1770643297744_03 R m (nat (len - int (length context))) context
            (py_list context) g')"

text \<open>
  \<open>generate\<close> of release_gate_after_schema_first_177179/python-ai-stdlib-oracle_run_03:
  a seed of another length than \<open>order\<close> is refused before anything else happens; the
  loop is the one of \<open>walk\<close>.
\<close>

definition generate_177179_03 ::
  "'g rng \<Rightarrow> table MarkovChain \<Rightarrow> int \<Rightarrow> string option \<Rightarrow> int option \<Rightarrow> 'g
     \<Rightarrow> (error + string) \<times> 'g" where
  "generate_177179_03 R m len seed random_seed g =
     (case seed of
        Some s \<Rightarrow>
          if int (length s) \<noteq> order m then (Inl ValueError, g)
          else walk R m (nat (len - order m)) s (py_list s) (reseed R random_seed g)
      | None \<Rightarrow>
          (case choice R (dict_keys (transitions m)) (reseed R random_seed g) of
             (Inl e, g') \<Rightarrow> (Inl e, g')
           | (Inr context, g') \<Rightarrow>
               walk R m (nat (len - order m)) context (py_list context) g'))"

section \<open>Serialization\<close>

text \<open>
  The values that \<open>to_dict\<close> produces and \<open>from_dict\<close> is handed: \<open>None\<close>, booleans,
  integers, strings, lists and dicts with string keys.  Numbers with a fraction are not
  part of this type.
\<close>

datatype pyval =
    PNone
  | PBool bool
  | PInt int
  | PStr string
  | PList "pyval list"
  | PDict "(string \<times> pyval) list"

text \<open>A table as a value of that type, and back when the value has the shape of one.\<close>

definition inner_to_py :: "(string, int) dict \<Rightarrow> pyval" where
  "inner_to_py inner = PDict (map (\<lambda>(s, n). (s, PInt n)) inner)"

definition table_to_py :: "table \<Rightarrow> pyval" where
  "table_to_py T = PDict (map (\<lambda>(c, inner). (c, inner_to_py inner)) T)"

definition py_to_inner :: "pyval \<Rightarrow> (string, int) dict option" where
  "py_to_inner v =
     (case v of
        PDict kvs \<Rightarrow> those (map (\<lambda>(s, x). case x of PInt n \<Rightarrow> Some (s, n) | _ \<Rightarrow> None) kvs)
      | _ \<Rightarrow> None)"

definition py_to_table :: "pyval \<Rightarrow> table option" where
  "py_to_table v =
     (case v of
        PDict kvs \<Rightarrow> those (map (\<lambda>(c, x). map_option (Pair c) (py_to_inner x)) kvs)
      | _ \<Rightarrow> None)"

definition typed :: "pyval MarkovChain \<Rightarrow> table MarkovChain option" where
  "typed r = map_option (\<lambda>T. \<lparr>order = order r, transitions = T\<rparr>) (py_to_table (transitions r))"

text \<open>\<open>d[key]\<close> for a string key: only a dict can be subscripted with it.\<close>

definition py_getitem :: "pyval \<Rightarrow> string \<Rightarrow> error + pyval" where
  "py_getitem d key =
     (case d of
        PDict kvs \<Rightarrow> (case map_of kvs key of None \<Rightarrow> Inl KeyError | Some v \<Rightarrow> Inr v)
      | _ \<Rightarrow> Inl TypeError)"

text \<open>
  The integer that a value is in the comparison \<open>order <= 0\<close>; \<open>bool\<close> is a subtype of
  \<open>int\<close>, every other value raises \<open>TypeError\<close> there.
\<close>

definition py_int :: "pyval \<Rightarrow> int option" where
  "py_int v = (case v of PInt n \<Rightarrow> Some n | PBool b \<Rightarrow> Some (if b then 1 else 0) | _ \<Rightarrow> None)"

text \<open>\<open>MarkovChain.to_dict\<close> and \<open>MarkovChain.from_dict\<close>\<close>

definition to_dict :: "table MarkovChain \<Rightarrow> pyval" where
  "to_dict m = PDict [(''order'', PInt (order m)), (''transitions'', table_to_py (transitions m))]"

definition from_dict :: "pyval \<Rightarrow> error + pyval MarkovChain" where
  "from_dict d =
     (case py_getitem d ''order'' of
        Inl e \<Rightarrow> Inl e
      | Inr ov \<Rightarrow>
          (case py_int ov of
             None \<Rightarrow> Inl TypeError
           | Some k \<Rightarrow>
               (case construct k of
                  Inl e \<Rightarrow> Inl e
                | Inr mc \<Rightarrow>
                    (case py_getitem d ''transitions'' of
                       Inl e \<Rightarrow> Inl e
                     | Inr tv \<Rightarrow> Inr \<lparr>order = order mc, transitions = tv\<rparr>))))"

section \<open>Training builds the table of counts\<close>

lemma map_of_dict_set: "map_of (dict_set d k v) = (map_of d)(k \<mapsto> v)"
  by (induction d) (auto simp: fun_eq_iff)

lemma dict_get_dict_set: "dict_get (dict_set d k v) k' = (if k' = k then Some v else dict_get d k')"
  by (simp add: dict_get_def map_of_dict_set)

lemma keys_dict_set: "fst ` set (dict_set d k v) = insert k (fst ` set d)"
  by (induction d) auto

lemma dict_contains_keys: "dict_contains d k \<longleftrightarrow> k \<in> fst ` set d"
  by (simp add: dict_contains_def dict_get_def map_of_eq_None_iff)

lemma dict_get_Nil: "dict_get [] k = None"
  by (simp add: dict_get_def)

lemma dict_get_Cons: "dict_get ((k, v) # d) k' = (if k' = k then Some v else dict_get d k')"
  by (simp add: dict_get_def)

lemma train_step_entry:
  assumes "py_index text (i + k) = Inr nc"
  shows "\<exists>T'. train_step k text i T = Inr T'
           \<and> (\<forall>c s. entry T' c s =
                 (if c = py_slice text i (i + k) \<and> s = nc
                  then Some ((case entry T c s of None \<Rightarrow> 0 | Some v \<Rightarrow> v) + 1)
                  else entry T c s))
           \<and> fst ` set T' = insert (py_slice text i (i + k)) (fst ` set T)"
  using assms
  by (auto simp: train_step_def Let_def entry_def dict_get_dict_set dict_get_Nil dict_get_Cons dict_contains_def keys_dict_set
           split: option.splits)

lemma py_index_in: "i + k < length text \<Longrightarrow> py_index text (int i + int k) = Inr [text ! (i + k)]"
  by (simp add: py_index_def Let_def nat_add_distrib)

lemma py_slice_in:
  "i + k \<le> length text \<Longrightarrow> py_slice text (int i) (int i + int k) = take k (drop i text)"
  by (simp add: py_slice_def py_clamp_def Let_def nat_add_distrib min_def)

lemma bump_bump: "bump (bump v a) b = bump v (a + b)"
  by (simp add: bump_def)

lemma train_loop_entry:
  assumes "\<forall>i \<in> set ps. i + k < length text"
  shows "\<exists>T'. train_loop (int k) text ps T = Inr T'
           \<and> (\<forall>c s. entry T' c s = bump (entry T c s) (hits k text ps c s))
           \<and> fst ` set T' = fst ` set T \<union> (\<lambda>i. take k (drop i text)) ` set ps"
  using assms
proof (induction ps arbitrary: T)
  case Nil
  then show ?case by (simp add: hits_def bump_def)
next
  case (Cons i ps)
  from Cons.prems have i: "i + k < length text" by simp
  from train_step_entry[OF py_index_in[OF i], of T] obtain T1 where
    T1: "train_step (int k) text (int i) T = Inr T1"
    and e1: "\<And>c s. entry T1 c s =
                 (if c = take k (drop i text) \<and> s = [text ! (i + k)]
                  then Some ((case entry T c s of None \<Rightarrow> 0 | Some v \<Rightarrow> v) + 1)
                  else entry T c s)"
    and k1: "fst ` set T1 = insert (take k (drop i text)) (fst ` set T)"
    using i by (auto simp: py_slice_in)
  from Cons.IH[of T1] Cons.prems obtain T' where
    T': "train_loop (int k) text ps T1 = Inr T'"
    and e': "\<And>c s. entry T' c s = bump (entry T1 c s) (hits k text ps c s)"
    and k': "fst ` set T' = fst ` set T1 \<union> (\<lambda>i. take k (drop i text)) ` set ps"
    by auto
  have "entry T' c s = bump (entry T c s) (hits k text (i # ps) c s)" for c s
    by (simp add: e' e1 bump_def hits_def)
  with T1 T' k1 k' show ?case by auto
qed

lemma train_entry:
  assumes "order m = int k"
  shows "\<exists>m'. train m text = Inr m' \<and> order m' = order m
           \<and> (\<forall>c s. entry (transitions m') c s =
                  bump (entry (transitions m) c s) (hits k text [0..<length text - k] c s))
           \<and> fst ` set (transitions m') = fst ` set (transitions m) \<union> windows k text"
proof -
  have r: "py_range (int (length text) - int k) = [0..<length text - k]"
    by (simp add: py_range_def nat_diff_distrib')
  have "\<forall>i \<in> set [0..<length text - k]. i + k < length text" by auto
  from train_loop_entry[OF this, of "transitions m"] show ?thesis
    by (auto simp: train_def r assms windows_def)
qed

lemma train_all_entry:
  assumes "order m = int k"
  shows "\<exists>m'. train_all m texts = Inr m' \<and> order m' = order m
           \<and> (\<forall>c s. entry (transitions m') c s =
                  bump (entry (transitions m) c s)
                       (sum_list (map (\<lambda>text. hits k text [0..<length text - k] c s) texts)))
           \<and> fst ` set (transitions m') = fst ` set (transitions m) \<union> (\<Union>text \<in> set texts. windows k text)"
  using assms
proof (induction texts arbitrary: m)
  case Nil
  then show ?case by (simp add: bump_def)
next
  case (Cons t texts)
  from train_entry[OF Cons.prems, of t] obtain m1 where
    m1: "train m t = Inr m1" "order m1 = order m"
    and e1: "\<And>c s. entry (transitions m1) c s =
                  bump (entry (transitions m) c s) (hits k t [0..<length t - k] c s)"
    and k1: "fst ` set (transitions m1) = fst ` set (transitions m) \<union> windows k t"
    by auto
  have "order m1 = int k" using m1 Cons.prems by simp
  from Cons.IH[OF this] obtain m' where
    m': "train_all m1 texts = Inr m'" "order m' = order m1"
    and e': "\<And>c s. entry (transitions m') c s =
                  bump (entry (transitions m1) c s)
                       (sum_list (map (\<lambda>text. hits k text [0..<length text - k] c s) texts))"
    and k': "fst ` set (transitions m') = fst ` set (transitions m1) \<union> (\<Union>text \<in> set texts. windows k text)"
    by auto
  have "entry (transitions m') c s =
          bump (entry (transitions m) c s)
               (sum_list (map (\<lambda>text. hits k text [0..<length text - k] c s) (t # texts)))" for c s
    by (simp add: e' e1 bump_bump)
  with m1 m' k1 k' show ?case by auto
qed

lemma hits_occurrences: "hits k text [0..<length text - k] c [ch] = occurrences k text c ch"
  by (simp add: hits_def occurrences_def)

lemma hits_not_single: "length s \<noteq> 1 \<Longrightarrow> hits k text ps c s = 0"
  by (cases s) (auto simp: hits_def)

lemma occurrences_pos: "0 < occurrences k text c ch \<longleftrightarrow> (\<exists>i. i + k < length text \<and> take k (drop i text) = c \<and> text ! (i + k) = ch)"
  by (auto simp: occurrences_def filter_empty_conv less_diff_conv)

lemma windows_iff: "c \<in> windows k text \<longleftrightarrow> (\<exists>ch. 0 < occurrences k text c ch)"
  by (auto simp: windows_def occurrences_pos less_diff_conv image_iff Bex_def)

lemma total_occurrences_pos:
  "0 < total_occurrences k texts c ch \<longleftrightarrow> (\<exists>text \<in> set texts. 0 < occurrences k text c ch)"
  by (induction texts) (auto simp: total_occurrences_def)

lemma windows_length: "c \<in> windows k text \<Longrightarrow> length c = k"
  by (auto simp: windows_def)

lemma dict_set_twice: "dict_set (dict_set d k v) k w = dict_set d k w"
  by (induction d) auto

lemma train_step_1770640212304_01_eq:
  "train_step_1770640212304_01 k text i T = train_step k text i T"
  by (auto simp: train_step_1770640212304_01_def train_step_def Let_def dict_contains_def
        dict_get_dict_set dict_set_twice dict_get_Nil dict_get_Cons split: sum.splits option.splits)

lemma train_loop_1770640212304_01_eq:
  "train_loop_1770640212304_01 k text ps T = train_loop k text ps T"
  by (induction ps arbitrary: T) (auto simp: train_step_1770640212304_01_eq split: sum.splits)

lemma train_1770640212304_01_eq: "train_1770640212304_01 m text = train m text"
  by (simp add: train_1770640212304_01_def train_def train_loop_1770640212304_01_eq)


text \<open>
  C1.  For an order \<open>k \<ge> 1\<close>, training a freshly constructed model on a list of texts
  never raises, and the table it ends with stores for context \<open>c\<close> and character \<open>ch\<close>
  exactly the number of positions, summed over the texts, at which \<open>c\<close> is followed by
  \<open>ch\<close>; there is no entry when that number is zero and no entry for anything but a
  single character.  Every key has \<open>k\<close> characters, a context is a key exactly when it
  was seen with a following character, one more \<open>train\<close> call on any model of order \<open>k\<close>
  succeeds and adds the occurrences of its text to the counts, a text of fewer than
  \<open>k + 1\<close> characters leaves the model as it is, and the copy
  batch_1770640212304/python-ai-stdlib-oracle_run_01 computes the same function.
\<close>

theorem train_counts:
  assumes "1 \<le> k"
  shows "\<exists>m0 m'. construct k = Inr m0 \<and> train_all m0 texts = Inr m' \<and> order m' = k
     \<and> (\<forall>c ch. entry (transitions m') c [ch] =
            (if total_occurrences (nat k) texts c ch = 0 then None
             else Some (int (total_occurrences (nat k) texts c ch))))
     \<and> (\<forall>c s. length s \<noteq> 1 \<longrightarrow> entry (transitions m') c s = None)
     \<and> (\<forall>c \<in> set (dict_keys (transitions m')). int (length c) = k)
     \<and> (\<forall>c. dict_contains (transitions m') c \<longleftrightarrow>
              (\<exists>ch. 0 < total_occurrences (nat k) texts c ch))
     \<and> (\<forall>m text. order m = k \<longrightarrow>
            (\<exists>m''. train m text = Inr m'' \<and> order m'' = k
               \<and> (\<forall>c ch. count_of (transitions m'') c ch =
                      count_of (transitions m) c ch + int (occurrences (nat k) text c ch))))
     \<and> (\<forall>m text. order m = k \<and> int (length text) < k + 1 \<longrightarrow> train m text = Inr m)
     \<and> (\<forall>m text. train_1770640212304_01 m text = train m text)"
proof -
  define n where "n = nat k"
  with assms have k: "k = int n" and n: "0 < n" by auto
  let ?m0 = "\<lparr>order = k, transitions = []\<rparr> :: table MarkovChain"
  have c0: "construct k = Inr ?m0" using assms by (simp add: construct_def)
  have "order ?m0 = int n" by (simp add: k)
  from train_all_entry[OF this, of texts] obtain m' where
    m': "train_all ?m0 texts = Inr m'" "order m' = k"
    and e': "\<And>c s. entry (transitions m') c s =
               bump None (sum_list (map (\<lambda>text. hits n text [0..<length text - n] c s) texts))"
    and k': "fst ` set (transitions m') = (\<Union>text \<in> set texts. windows n text)"
    by (auto simp: entry_def dict_get_Nil)
  have p1: "entry (transitions m') c [ch] =
            (if total_occurrences n texts c ch = 0 then None
             else Some (int (total_occurrences n texts c ch)))" for c ch
    by (simp add: e' hits_occurrences total_occurrences_def bump_def)
  have p2: "entry (transitions m') c s = None" if "length s \<noteq> 1" for c s
    using that by (simp add: e' hits_not_single bump_def)
  have p3: "\<forall>c \<in> set (dict_keys (transitions m')). int (length c) = k"
    using k' by (auto simp: dict_keys_def k dest: windows_length)
  have p4: "dict_contains (transitions m') c \<longleftrightarrow> (\<exists>ch. 0 < total_occurrences n texts c ch)" for c
    by (auto simp: dict_contains_keys k' windows_iff total_occurrences_pos)
  have p5: "\<exists>m''. train m t = Inr m'' \<and> order m'' = k
               \<and> (\<forall>c ch. count_of (transitions m'') c ch =
                      count_of (transitions m) c ch + int (occurrences n t c ch))"
    if "order m = k" for m :: "table MarkovChain" and t
  proof -
    from that have "order m = int n" by (simp add: k)
    from train_entry[OF this, of t] obtain m'' where
      t: "train m t = Inr m''" "order m'' = order m"
      and e: "\<And>c s. entry (transitions m'') c s =
                 bump (entry (transitions m) c s) (hits n t [0..<length t - n] c s)"
      by auto
    have "count_of (transitions m'') c ch =
            count_of (transitions m) c ch + int (occurrences n t c ch)" for c ch
      by (simp add: count_of_def e hits_occurrences bump_def split: option.splits)
    with t that show ?thesis by auto
  qed
  have p6: "train m t = Inr m" if "order m = k \<and> int (length t) < k + 1"
    for m :: "table MarkovChain" and t
    using that by (simp add: train_def py_range_def)
  from c0 m' p1 p2 p3 p4 p5 p6 train_1770640212304_01_eq show ?thesis
    unfolding n_def[symmetric] by blast
qed

theorem train_counts_witness:
  "(1::int) \<le> 2
   \<and> (\<exists>m0 m'. construct 2 = Inr m0 \<and> train_all m0 [''abcd''] = Inr m'
         \<and> transitions m' = [(''ab'', [(''c'', 1)]), (''bc'', [(''d'', 1)])]
         \<and> total_occurrences 2 [''abcd''] ''ab'' CHR ''c'' = 1
         \<and> entry (transitions m') ''ab'' ''c'' = Some 1
         \<and> entry (transitions m') ''ab'' ''cd'' = None
         \<and> ''ab'' \<in> set (dict_keys (transitions m')) \<and> int (length ''ab'') = 2
         \<and> dict_contains (transitions m') ''bc''
         \<and> train m' ''ab'' = Inr m')"
proof -
  have h: "(1::int) \<le> 2" by simp
  from train_counts[OF h, of "[''abcd'']"] obtain m0 m' where
    c: "construct 2 = Inr m0" and t: "train_all m0 [''abcd''] = Inr m'" and o: "order m' = 2"
    and e: "\<And>c ch. entry (transitions m') c [ch] =
            (if total_occurrences (nat 2) [''abcd''] c ch = 0 then None
             else Some (int (total_occurrences (nat 2) [''abcd''] c ch)))"
    and s: "\<And>c s. length s \<noteq> 1 \<longrightarrow> entry (transitions m') c s = None"
    and l: "\<forall>c \<in> set (dict_keys (transitions m')). int (length c) = 2"
    and d: "\<And>c. dict_contains (transitions m') c \<longleftrightarrow>
              (\<exists>ch. 0 < total_occurrences (nat 2) [''abcd''] c ch)"
    and n: "\<And>m text. order m = 2 \<and> int (length text) < 2 + 1 \<longrightarrow> train m text = Inr m"
    by blast
  have m0: "m0 = \<lparr>order = 2, transitions = []\<rparr>"
    using c by (simp add: construct_def)
  have "train_all \<lparr>order = 2, transitions = []\<rparr> [''abcd'']
          = Inr \<lparr>order = 2, transitions = [(''ab'', [(''c'', 1)]), (''bc'', [(''d'', 1)])]\<rparr>"
    by code_simp
  with t m0 have m': "transitions m' = [(''ab'', [(''c'', 1)]), (''bc'', [(''d'', 1)])]"
    by simp
  have occ: "total_occurrences 2 [''abcd''] ''ab'' CHR ''c'' = 1"
    by code_simp
  have occ2: "total_occurrences 2 [''abcd''] ''bc'' CHR ''d'' = 1"
    by code_simp
  have e1: "entry (transitions m') ''ab'' ''c'' = Some 1"
    using e[of "''ab''" "CHR ''c''"] occ by simp
  have e2: "entry (transitions m') ''ab'' ''cd'' = None"
    using s[of "''cd''" "''ab''"] by simp
  have k1: "''ab'' \<in> set (dict_keys (transitions m'))"
    by (simp add: m' dict_keys_def)
  have d1: "dict_contains (transitions m') ''bc''"
    using d[of "''bc''"] occ2 by auto
  have n1: "train m' ''ab'' = Inr m'"
    using n[of m' "''ab''"] o by simp
  from h c t m' occ e1 e2 k1 d1 n1 show ?thesis by auto
qed

section \<open>Construction\<close>

text \<open>
  C9.  The constructor fails, with \<open>ValueError\<close>, exactly for the orders that are not
  positive; for every order of at least 1 it returns a model with that order and an
  empty table.
\<close>

theorem construct_checks_order:
  "((\<exists>e. construct k = Inl e) \<longleftrightarrow> k \<le> 0)
   \<and> (k \<le> 0 \<longrightarrow> construct k = Inl ValueError)
   \<and> (1 \<le> k \<longrightarrow> construct k = Inr \<lparr>order = k, transitions = []\<rparr>)
   \<and> construct 0 = Inl ValueError"
  by (simp add: construct_def)

theorem construct_checks_order_witness:
  "(1::int) \<le> 3 \<and> construct 3 = Inr \<lparr>order = 3, transitions = []\<rparr>
   \<and> (- 2::int) \<le> 0 \<and> construct (- 2) = Inl ValueError
   \<and> construct 0 = Inl ValueError"
  using construct_checks_order[of 3] construct_checks_order[of "- 2"]
  by simp

text \<open>
  The copy batch_1771703728306/python-ai-stdlib-oracle_run_01 has no such test: there
  an order of zero gives a model.
\<close>

lemma construct_1771703728306_01_accepts_zero:
  "construct_1771703728306_01 0 = Inr \<lparr>order = 0, transitions = []\<rparr>"
  by (simp add: construct_1771703728306_01_def)

section \<open>Reseeding makes generation independent of the generator's state\<close>

text \<open>
  C2.  With a \<open>random_seed\<close>, the result of \<open>generate\<close> (the string or the exception, and
  the state the generator is left in) is the same whatever state the generator was in
  before the call, in both copies: two calls with the same arguments on the same model
  return the same string.
\<close>

theorem generate_deterministic:
  "generate R m len seed (Some S) g1 = generate R m len seed (Some S) g2
   \<and> generate_1770640212304_01 R m len seed (Some S) g1
       = generate_1770640212304_01 R m len seed (Some S) g2"
  by (simp add: generate_def reseed_def generate_1770640212304_01_def)

theorem generate_deterministic_witness:
  "generate lcg \<lparr>order = 1, transitions = [(''a'', [(''b'', 1)]), (''b'', [(''a'', 1)])]\<rparr>
      4 None (Some 7) 0 = (Inr ''baba'', 11)
   \<and> generate lcg \<lparr>order = 1, transitions = [(''a'', [(''b'', 1)]), (''b'', [(''a'', 1)])]\<rparr>
      4 None (Some 7) 5 = (Inr ''baba'', 11)"
proof -
  have "generate lcg \<lparr>order = 1, transitions = [(''a'', [(''b'', 1)]), (''b'', [(''a'', 1)])]\<rparr>
      4 None (Some 7) 0 = (Inr ''baba'', 11)"
    by code_simp
  with generate_deterministic[of lcg _ 4 None 7 0 5] show ?thesis by simp
qed

section \<open>Serialization\<close>

lemma py_to_inner_inverse: "py_to_inner (inner_to_py inner) = Some inner"
  by (induction inner) (auto simp: py_to_inner_def inner_to_py_def)

lemma py_to_table_inverse: "py_to_table (table_to_py T) = Some T"
  by (induction T) (auto simp: py_to_table_def table_to_py_def py_to_inner_inverse)

text \<open>
  C3.  For a model \<open>m\<close> (its order is at least 1, as the constructor guarantees),
  \<open>from_dict (to_dict m)\<close> succeeds, and the model it returns has the order and the table
  of \<open>m\<close>; so \<open>generate\<close> gives on it what it gives on \<open>m\<close>, for the same arguments and
  the same state of the generator.
\<close>

theorem round_trip:
  assumes "1 \<le> order m"
  shows "\<exists>r m'. from_dict (to_dict m) = Inr r \<and> typed r = Some m'
           \<and> order m' = order m \<and> transitions m' = transitions m
           \<and> generate R m' len seed random_seed g = generate R m len seed random_seed g"
proof -
  let ?r = "\<lparr>order = order m, transitions = table_to_py (transitions m)\<rparr>"
  from assms have "from_dict (to_dict m) = Inr ?r"
    by (simp add: from_dict_def to_dict_def py_getitem_def py_int_def construct_def)
  moreover have "typed ?r = Some m"
    by (simp add: typed_def py_to_table_inverse)
  ultimately show ?thesis by auto
qed

theorem round_trip_witness:
  "1 \<le> order (\<lparr>order = 1, transitions = [(''a'', [(''b'', 1)]), (''b'', [(''a'', 1)])]\<rparr>
                 :: table MarkovChain)
   \<and> from_dict (to_dict \<lparr>order = 1, transitions = [(''a'', [(''b'', 1)]), (''b'', [(''a'', 1)])]\<rparr>)
       = Inr \<lparr>order = 1,
               transitions = PDict [(''a'', PDict [(''b'', PInt 1)]), (''b'', PDict [(''a'', PInt 1)])]\<rparr>
   \<and> (\<exists>r m'. from_dict (to_dict \<lparr>order = 1, transitions = [(''a'', [(''b'', 1)]), (''b'', [(''a'', 1)])]\<rparr>) = Inr r
          \<and> typed r = Some m'
          \<and> transitions m' = [(''a'', [(''b'', 1)]), (''b'', [(''a'', 1)])]
          \<and> generate lcg m' 4 (Some ''a'') (Some 7) 0 = (Inr ''abab'', 8))"
proof -
  let ?m = "\<lparr>order = 1, transitions = [(''a'', [(''b'', 1)]), (''b'', [(''a'', 1)])]\<rparr> :: table MarkovChain"
  have h: "1 \<le> order ?m" by simp
  have f: "from_dict (to_dict ?m)
       = Inr \<lparr>order = 1,
               transitions = PDict [(''a'', PDict [(''b'', PInt 1)]), (''b'', PDict [(''a'', PInt 1)])]\<rparr>"
    by (simp add: from_dict_def to_dict_def py_getitem_def py_int_def construct_def
          table_to_py_def inner_to_py_def)
  have g: "generate lcg ?m 4 (Some ''a'') (Some 7) 0 = (Inr ''abab'', 8)"
    by code_simp
  from round_trip[OF h, of lcg 4 "Some ''a''" "Some 7" 0] g have
    "\<exists>r m'. from_dict (to_dict ?m) = Inr r \<and> typed r = Some m'
          \<and> transitions m' = [(''a'', [(''b'', 1)]), (''b'', [(''a'', 1)])]
          \<and> generate lcg m' 4 (Some ''a'') (Some 7) 0 = (Inr ''abab'', 8)"
    by auto
  with h f show ?thesis by blast
qed




section \<open>The start of generation\<close>

lemma concat_py_list: "concat (py_list s) = s"
  by (induction s) (auto simp: py_list_def)

lemma walk_prefix:
  "walk R m n ctx result g = (Inr out, g') \<Longrightarrow> \<exists>rest. out = concat result @ rest"
proof (induction n arbitrary: ctx result g)
  case 0
  then show ?case by simp
next
  case (Suc n)
  then show ?case
    by (fastforce simp: Let_def split: option.splits prod.splits sum.splits)
qed

lemma choice_nonempty:
  assumes "rng_ok R" "xs \<noteq> []"
  shows "fst (rng_randbelow R (length xs) g) < length xs
         \<and> choice R xs g = (Inr (xs ! fst (rng_randbelow R (length xs) g)),
                             snd (rng_randbelow R (length xs) g))"
  using assms by (auto simp: rng_ok_def choice_def split: prod.splits)

lemma rng_ok_lcg: "rng_ok lcg"
  by (simp add: rng_ok_def lcg_def)

lemma generate_short_eq:
  "len \<le> order m \<Longrightarrow>
   generate R m len seed random_seed g = initial_context R m seed (reseed R random_seed g)"
  by (auto simp: generate_def concat_py_list split: prod.splits sum.splits)

lemma initial_context_choice:
  assumes "seed = None \<or> (\<exists>s. seed = Some s \<and> int (length s) \<noteq> order m)"
    "transitions m \<noteq> []" "rng_ok R"
  shows "fst (rng_randbelow R (length (transitions m)) g) < length (transitions m)
       \<and> initial_context R m seed g
           = (Inr (dict_keys (transitions m) ! fst (rng_randbelow R (length (transitions m)) g)),
              snd (rng_randbelow R (length (transitions m)) g))
       \<and> dict_contains (transitions m)
           (dict_keys (transitions m) ! fst (rng_randbelow R (length (transitions m)) g))"
proof -
  have ne: "dict_keys (transitions m) \<noteq> []" using assms(2) by (simp add: dict_keys_def)
  from choice_nonempty[OF assms(3) ne, of g] have
    i: "fst (rng_randbelow R (length (transitions m)) g) < length (transitions m)"
    and ch: "choice R (dict_keys (transitions m)) g
       = (Inr (dict_keys (transitions m) ! fst (rng_randbelow R (length (transitions m)) g)),
           snd (rng_randbelow R (length (transitions m)) g))"
    by (simp_all add: dict_keys_def)
  from assms(1) ch have ic: "initial_context R m seed g
         = (Inr (dict_keys (transitions m) ! fst (rng_randbelow R (length (transitions m)) g)),
            snd (rng_randbelow R (length (transitions m)) g))"
    by (auto simp: initial_context_def)
  from i have "dict_keys (transitions m) ! fst (rng_randbelow R (length (transitions m)) g)
                 \<in> fst ` set (transitions m)"
    by (metis dict_keys_def length_map nth_mem set_map)
  then have "dict_contains (transitions m)
         (dict_keys (transitions m) ! fst (rng_randbelow R (length (transitions m)) g))"
    by (simp add: dict_contains_keys)
  with i ic show ?thesis by simp
qed

lemma wf_table_key_length:
  "wf_table k T \<Longrightarrow> i < length T \<Longrightarrow> int (length (dict_keys T ! i)) = k"
  by (cases "T ! i") (auto simp: wf_table_def dict_keys_def list_all_length)




text \<open>
  C7.  A supplied seed that is not a key of the table has to be treated as no seed.
  \<open>generate\<close> of release_gate_after_best_patch_177182/python-ai-stdlib-oracle_run_09
  tests the length of the seed only.  On the table that maps \<open>a\<close> to \<open>b\<close>, the seed \<open>z\<close>,
  which is no key, becomes the starting context: it is the output for \<open>length = 1\<close>, and
  for \<open>length = 2\<close> the first lookup of the walk raises \<open>KeyError\<close>.
\<close>

theorem seed_outside_table_is_used:
  "generate lcg \<lparr>order = 1, transitions = [(''a'', [(''b'', 1)])]\<rparr> 1 (Some ''z'') None 0
     = (Inr ''z'', 0)
   \<and> \<not> dict_contains [(''a'', [(''b'', 1::int)])] ''z''
   \<and> generate lcg \<lparr>order = 1, transitions = [(''a'', [(''b'', 1)])]\<rparr> 2 (Some ''z'') None 0
     = (Inl KeyError, 0)"
  by (simp add: generate_def initial_context_def reseed_def py_list_def dict_contains_def
        dict_get_def numeral_2_eq_2)

text \<open>
  The two other copies cited for the seed: release_gate_after_schema_first_177179
  (run_03) refuses a seed of another length than \<open>order\<close>, and run_1768562193727
  treats a seed that is not a key of the table as no seed.
\<close>

lemma generate_177179_03_refuses_seed:
  "int (length s) \<noteq> order m \<Longrightarrow>
   generate_177179_03 R m len (Some s) random_seed g = (Inl ValueError, g)"
  by (simp add: generate_177179_03_def)

lemma generate_1768562193727_seed_outside_table:
  "\<not> dict_contains (transitions m) s \<Longrightarrow>
   generate_1768562193727 R m len (Some s) random_seed g
     = generate_1768562193727 R m len None random_seed g"
  by (simp add: generate_1768562193727_def)

text \<open>
  C8.  With \<open>length \<le> order\<close> the loop does not run and \<open>generate\<close> returns the starting
  context whole: on a non-empty table as training builds it, a string of exactly \<open>order\<close>
  characters, also when \<open>length\<close> is smaller than \<open>order\<close>.
\<close>

theorem generate_short:
  assumes "len \<le> order m" "transitions m \<noteq> []" "rng_ok R" "wf_table (order m) (transitions m)"
  shows "\<exists>ctx g'. initial_context R m seed (reseed R random_seed g) = (Inr ctx, g')
           \<and> generate R m len seed random_seed g = (Inr ctx, g')
           \<and> int (length ctx) = order m"
proof (cases "\<exists>s. seed = Some s \<and> int (length s) = order m")
  case True
  with assms(1) show ?thesis
    by (auto simp: generate_short_eq initial_context_def)
next
  case False
  then have "seed = None \<or> (\<exists>s. seed = Some s \<and> int (length s) \<noteq> order m)"
    by (cases seed) auto
  from initial_context_choice[OF this assms(2,3), of "reseed R random_seed g"]
  obtain i where i: "i < length (transitions m)"
    and ic: "initial_context R m seed (reseed R random_seed g)
               = (Inr (dict_keys (transitions m) ! i),
                  snd (rng_randbelow R (length (transitions m)) (reseed R random_seed g)))"
    by blast
  from wf_table_key_length[OF assms(4) i] ic assms(1) show ?thesis
    by (simp add: generate_short_eq)
qed

theorem generate_short_witness:
  "(1::int) \<le> order (\<lparr>order = 2, transitions = [(''ab'', [(''c'', 1)])]\<rparr> :: table MarkovChain)
   \<and> transitions (\<lparr>order = 2, transitions = [(''ab'', [(''c'', 1)])]\<rparr> :: table MarkovChain) \<noteq> []
   \<and> rng_ok lcg
   \<and> wf_table 2 [(''ab'', [(''c'', 1)])]
   \<and> generate lcg \<lparr>order = 2, transitions = [(''ab'', [(''c'', 1)])]\<rparr> 1 None None 0
        = (Inr ''ab'', 3)
   \<and> initial_context lcg \<lparr>order = 2, transitions = [(''ab'', [(''c'', 1)])]\<rparr> None 0
        = (Inr ''ab'', 3)"
proof -
  let ?m = "\<lparr>order = 2, transitions = [(''ab'', [(''c'', 1)])]\<rparr> :: table MarkovChain"
  have h1: "1 \<le> order ?m" by simp
  have h2: "transitions ?m \<noteq> []" by simp
  have h4: "wf_table (order ?m) (transitions ?m)"
    by (simp add: wf_table_def wf_inner_def)
  have ic: "initial_context lcg ?m None (reseed lcg None 0) = (Inr ''ab'', 3)"
    by code_simp
  from generate_short[OF h1 h2 rng_ok_lcg h4, of None None 0] ic
  have "generate lcg ?m 1 None None 0 = (Inr ''ab'', 3)" by auto
  with h1 h2 h4 ic rng_ok_lcg show ?thesis by (simp add: reseed_def)
qed

theorem generate_returns_whole_context:
  "generate lcg \<lparr>order = 2, transitions = [(''ab'', [(''c'', 1)])]\<rparr> 1 None None 0
     = (Inr ''ab'', 3)
   \<and> initial_context lcg \<lparr>order = 2, transitions = [(''ab'', [(''c'', 1)])]\<rparr> None 0
     = (Inr ''ab'', 3)
   \<and> take 1 ''ab'' = ''a''
   \<and> generate_1770640212304_01 lcg
        \<lparr>order = 1, transitions = [(''a'', [(''b'', 1)]), (''b'', [(''a'', 1)])]\<rparr>
        1 (Some ''a'') (Some 7) 0 = (Inr ''b'', 6)"
  by code_simp

section \<open>Tables as training builds them\<close>

lemma pick_cumulative_some:
  "cum < r \<Longrightarrow> r \<le> cum + sum_list (map snd xs) \<Longrightarrow>
   \<exists>nc \<in> fst ` set xs. pick_cumulative xs r cum = Some nc"
proof (induction xs arbitrary: cum)
  case Nil
  then show ?case by simp
next
  case (Cons p xs)
  obtain s c where p: "p = (s, c)" by (cases p)
  show ?case
  proof (cases "r \<le> cum + c")
    case True
    then show ?thesis by (simp add: p)
  next
    case False
    with Cons.prems have "cum + c < r" "r \<le> (cum + c) + sum_list (map snd xs)"
      by (auto simp: p)
    from Cons.IH[OF this] False show ?thesis by (auto simp: p)
  qed
qed

lemma wf_inner_total: "wf_inner inner \<Longrightarrow> 1 \<le> sum_list (map snd inner)"
proof -
  have "list_all (\<lambda>(s, n). length s = 1 \<and> 1 \<le> n) xs \<Longrightarrow> int (length xs) \<le> sum_list (map snd xs)"
    for xs :: "(string, int) dict"
    by (induction xs) auto
  moreover assume "wf_inner inner"
  ultimately show ?thesis
    by (cases inner) (fastforce simp: wf_inner_def)+
qed

lemma wf_inner_key_length: "wf_inner inner \<Longrightarrow> nc \<in> fst ` set inner \<Longrightarrow> length nc = 1"
  by (auto simp: wf_inner_def list_all_iff)

lemma wf_table_lookup:
  "wf_table k T \<Longrightarrow> dict_get T c = Some inner \<Longrightarrow> wf_inner inner \<and> int (length c) = k"
  by (auto simp: wf_table_def dict_get_def list_all_iff dest!: map_of_SomeD)

lemma py_slice_from_last:
  "k \<le> length xs \<Longrightarrow> 0 < k \<Longrightarrow> py_slice_from xs (- int k) = drop (length xs - k) xs"
  by (simp add: py_slice_from_def py_clamp_def nat_diff_distrib')

lemma py_slice_from_one: "py_slice_from xs 1 = drop 1 xs"
  by (cases xs) (simp_all add: py_slice_from_def py_clamp_def)

lemma distinct_dict_set: "distinct (map fst d) \<Longrightarrow> distinct (map fst (dict_set d k v))"
  by (induction d) (auto simp: keys_dict_set)

lemma list_all_dict_set: "list_all P d \<Longrightarrow> P (k, v) \<Longrightarrow> list_all P (dict_set d k v)"
  by (induction d) auto

lemma dict_set_not_Nil: "dict_set d k v \<noteq> []"
  by (cases d) auto

lemma dict_get_list_all: "list_all P d \<Longrightarrow> dict_get d k = Some v \<Longrightarrow> P (k, v)"
  by (auto simp: dict_get_def list_all_iff dest: map_of_SomeD)

lemma wf_inner_bump:
  assumes "inner = [] \<or> wf_inner inner" "length nc = 1"
  shows "wf_inner (dict_set inner nc ((case dict_get inner nc of None \<Rightarrow> 0 | Some c \<Rightarrow> c) + 1))"
proof (cases "inner = []")
  case True
  with assms(2) show ?thesis by (simp add: wf_inner_def dict_get_Nil)
next
  case False
  with assms(1) have wf: "wf_inner inner" by simp
  have "1 \<le> (case dict_get inner nc of None \<Rightarrow> 0 | Some c \<Rightarrow> c) + 1"
  proof (cases "dict_get inner nc")
    case None
    then show ?thesis by simp
  next
    case (Some c)
    from wf have "list_all (\<lambda>(s, n). length s = 1 \<and> 1 \<le> n) inner" by (simp add: wf_inner_def)
    from dict_get_list_all[OF this Some] Some show ?thesis by simp
  qed
  with wf assms(2) show ?thesis
    by (simp add: wf_inner_def dict_set_not_Nil distinct_dict_set list_all_dict_set)
qed

lemma train_step_wf:
  assumes "wf_table (int k) T" "i + k < length text" "train_step (int k) text (int i) T = Inr T'"
  shows "wf_table (int k) T'"
proof -
  let ?c = "take k (drop i text)"
  let ?nc = "[text ! (i + k)]"
  have lc: "int (length ?c) = int k" using assms(2) by simp
  from assms(3) have t: "train_step_1770640212304_01 (int k) text (int i) T = Inr T'"
    by (simp add: train_step_1770640212304_01_eq)
  have d: "distinct (map fst T)"
    and a: "list_all (\<lambda>(c, inner). int (length c) = int k \<and> wf_inner inner) T"
    using assms(1) by (simp_all add: wf_table_def)
  show ?thesis
  proof (cases "dict_get T ?c")
    case None
    with t assms(2) have "T' = dict_set T ?c [(?nc, 1)]"
      by (simp add: train_step_1770640212304_01_def py_slice_in py_index_in dict_contains_def)
    moreover have "wf_inner [(?nc, 1)]" by (simp add: wf_inner_def)
    ultimately show ?thesis
      using d a lc by (simp add: wf_table_def distinct_dict_set list_all_dict_set)
  next
    case (Some inner)
    with t assms(2) have T': "T' = dict_set T ?c
        (dict_set inner ?nc ((case dict_get inner ?nc of None \<Rightarrow> 0 | Some c \<Rightarrow> c) + 1))"
      by (simp add: train_step_1770640212304_01_def py_slice_in py_index_in dict_contains_def)
    from dict_get_list_all[OF a Some] have "wf_inner inner" by simp
    then have "wf_inner (dict_set inner ?nc
                 ((case dict_get inner ?nc of None \<Rightarrow> 0 | Some c \<Rightarrow> c) + 1))"
      by (intro wf_inner_bump) simp_all
    with T' d a lc show ?thesis
      by (simp add: wf_table_def distinct_dict_set list_all_dict_set)
  qed
qed

lemma train_loop_wf:
  assumes "\<forall>i \<in> set ps. i + k < length text"
  shows "wf_table (int k) T \<Longrightarrow> train_loop (int k) text ps T = Inr T' \<Longrightarrow> wf_table (int k) T'"
  using assms
proof (induction ps arbitrary: T)
  case Nil
  then show ?case by simp
next
  case (Cons i ps)
  from Cons.prems(2) obtain T1 where
    s: "train_step (int k) text (int i) T = Inr T1"
    and l: "train_loop (int k) text ps T1 = Inr T'"
    by (auto split: sum.splits)
  from Cons.prems(3) have "i + k < length text" by simp
  from train_step_wf[OF Cons.prems(1) this s] have "wf_table (int k) T1" .
  from Cons.IH[OF this l] Cons.prems(3) show ?case by simp
qed

text \<open>Training keeps a table in the form that the theorems on \<open>generate\<close> assume.\<close>

lemma train_wf_table:
  assumes "wf_table (order m) (transitions m)" "0 \<le> order m" "train m text = Inr m'"
  shows "wf_table (order m') (transitions m') \<and> order m' = order m"
proof -
  define k where "k = nat (order m)"
  with assms(2) have k: "order m = int k" by simp
  have r: "py_range (int (length text) - int k) = [0..<length text - k]"
    by (simp add: py_range_def nat_diff_distrib')
  have b: "\<forall>i \<in> set [0..<length text - k]. i + k < length text" by auto
  from assms(3) obtain T' where
    l: "train_loop (int k) text [0..<length text - k] (transitions m) = Inr T'"
    and m': "m' = m\<lparr>transitions := T'\<rparr>"
    by (auto simp: train_def k r split: sum.splits)
  from train_loop_wf[OF b _ l] assms(1) k have "wf_table (int k) T'" by simp
  with m' k show ?thesis by simp
qed

lemma train_all_wf_table:
  "wf_table (order m) (transitions m) \<Longrightarrow> 0 \<le> order m \<Longrightarrow> train_all m texts = Inr m'
   \<Longrightarrow> wf_table (order m') (transitions m') \<and> order m' = order m"
proof (induction texts arbitrary: m)
  case Nil
  then show ?case by simp
next
  case (Cons t texts)
  from Cons.prems(3) obtain m1 where
    t: "train m t = Inr m1" and a: "train_all m1 texts = Inr m'"
    by (auto split: sum.splits)
  from train_wf_table[OF Cons.prems(1,2) t] have
    w: "wf_table (order m1) (transitions m1)" and o: "order m1 = order m" by auto
  from o Cons.prems(2) have "0 \<le> order m1" by simp
  from Cons.IH[OF w this a] o show ?case by auto
qed

lemma construct_wf_table: "construct k = Inr m \<Longrightarrow> wf_table (order m) (transitions m) \<and> 1 \<le> order m"
  by (auto simp: construct_def wf_table_def split: if_splits)

section \<open>Weighted and unweighted sampling\<close>

lemma pick_cumulative_in_keys:
  "pick_cumulative xs r cum = Some nc \<Longrightarrow> nc \<in> fst ` set xs"
  by (induction xs r cum rule: pick_cumulative.induct) (auto split: if_splits)

lemma weight_before_bounds:
  assumes "distinct (map fst xs)" "\<forall>(s, c) \<in> set xs. 0 \<le> c" "(ch, n) \<in> set xs"
  shows "0 \<le> weight_before xs ch \<and> weight_before xs ch + n \<le> sum_list (map snd xs)"
  using assms
proof (induction xs)
  case Nil
  then show ?case by simp
next
  case (Cons p xs)
  obtain s c where p: "p = (s, c)" by (cases p)
  have nonneg: "0 \<le> sum_list (map snd xs)"
    using Cons.prems(2) by (intro sum_list_nonneg) auto
  show ?case
  proof (cases "s = ch")
    case True
    with Cons.prems p have "n = c" by (auto simp: image_iff)
    with True p nonneg show ?thesis by simp
  next
    case False
    with Cons.prems p have "(ch, n) \<in> set xs" by auto
    with Cons.IH Cons.prems p have
      "0 \<le> weight_before xs ch \<and> weight_before xs ch + n \<le> sum_list (map snd xs)"
      by auto
    moreover have "0 \<le> c" using Cons.prems(2) p by auto
    ultimately show ?thesis using False p by simp
  qed
qed

lemma pick_cumulative_iff:
  assumes "distinct (map fst xs)" "\<forall>(s, c) \<in> set xs. 0 \<le> c" "(ch, n) \<in> set xs" "cum < r"
  shows "pick_cumulative xs r cum = Some ch
           \<longleftrightarrow> cum + weight_before xs ch < r \<and> r \<le> cum + weight_before xs ch + n"
  using assms
proof (induction xs arbitrary: cum)
  case Nil
  then show ?case by simp
next
  case (Cons p xs)
  obtain s c where p: "p = (s, c)" by (cases p)
  show ?case
  proof (cases "s = ch")
    case True
    with Cons.prems p have n: "n = c" and notin: "ch \<notin> fst ` set xs"
      by (auto simp: image_iff)
    from notin have "pick_cumulative xs r (cum + c) \<noteq> Some ch"
      using pick_cumulative_in_keys by blast
    with True n p Cons.prems(4) show ?thesis by simp
  next
    case False
    with Cons.prems p have mem: "(ch, n) \<in> set xs" by auto
    have c0: "0 \<le> c" using Cons.prems(2) p by auto
    from weight_before_bounds[of xs ch n] Cons.prems mem have wb: "0 \<le> weight_before xs ch"
      by auto
    show ?thesis
    proof (cases "r \<le> cum + c")
      case True
      with False p wb show ?thesis by simp
    next
      case False2: False
      then have "cum + c < r" by simp
      with Cons.IH[of "cum + c"] Cons.prems mem have
        "pick_cumulative xs r (cum + c) = Some ch
           \<longleftrightarrow> cum + c + weight_before xs ch < r \<and> r \<le> cum + c + weight_before xs ch + n"
        by auto
      with False False2 p show ?thesis by (simp add: algebra_simps)
    qed
  qed
qed

text \<open>
  The draw of run_1768561810934 is weighted: of the \<open>total\<close> values that
  \<open>random.randint(1, total)\<close> can return, exactly \<open>n\<close> select a character whose count is
  \<open>n\<close>.
\<close>

lemma randint_pick_weighted:
  assumes "distinct (map fst inner)" "\<forall>(s, c) \<in> set inner. 0 \<le> c" "(ch, n) \<in> set inner"
  shows "card {r. 1 \<le> r \<and> r \<le> sum_list (dict_values inner)
                 \<and> pick_cumulative inner r 0 = Some ch} = nat n"
proof -
  from weight_before_bounds[OF assms] have
    wb: "0 \<le> weight_before inner ch" "weight_before inner ch + n \<le> sum_list (map snd inner)"
    by auto
  have "{r. 1 \<le> r \<and> r \<le> sum_list (dict_values inner) \<and> pick_cumulative inner r 0 = Some ch}
          = {weight_before inner ch + 1 .. weight_before inner ch + n}"
    using wb pick_cumulative_iff[OF assms, of 0] by (auto simp: dict_values_def)
  then show ?thesis by simp
qed

text \<open>
  The same for a round of its walk: the draw below the total count decides the character
  that is appended, and a character with count \<open>c\<close> is appended on exactly \<open>c\<close> of the
  \<open>total\<close> values of the draw.
\<close>

lemma walk_1768561810934_weighted:
  assumes "dict_get (transitions m) ctx = Some inner" "wf_inner inner" "rng_ok R"
    and "rng_randbelow R (nat (sum_list (dict_values inner))) g = (i, g')"
  shows "int i < sum_list (dict_values inner)
       \<and> (\<exists>nc. pick_cumulative inner (1 + int i) 0 = Some nc
             \<and> walk_1768561810934 R m (Suc n) ctx result g
                 = walk_1768561810934 R m n (py_slice_from ctx 1 @ nc) (result @ [nc]) g'
             \<and> (\<forall>ch c. (ch, c) \<in> set inner \<longrightarrow>
                   (nc = ch \<longleftrightarrow> weight_before inner ch \<le> int i
                                \<and> int i < weight_before inner ch + c)))
       \<and> (\<forall>ch c. (ch, c) \<in> set inner \<longrightarrow>
             card {j. j < nat (sum_list (dict_values inner))
                      \<and> pick_cumulative inner (1 + int j) 0 = Some ch} = nat c)"
proof -
  let ?total = "sum_list (dict_values inner)"
  have d: "distinct (map fst inner)" and p: "\<forall>(s, c) \<in> set inner. 1 \<le> c"
    using assms(2) by (auto simp: wf_inner_def list_all_iff)
  then have p0: "\<forall>(s, c) \<in> set inner. 0 \<le> c" by fastforce
  from assms(2) have ne: "inner \<noteq> []" by (simp add: wf_inner_def)
  from wf_inner_total[OF assms(2)] have tot: "1 \<le> ?total" by (simp add: dict_values_def)
  from assms(3) tot have "fst (rng_randbelow R (nat ?total) g) < nat ?total"
    by (simp add: rng_ok_def)
  with assms(4) have i: "int i < ?total" by simp
  from tot assms(4) have ri: "randint R 1 ?total g = (Inr (1 + int i), g')"
    by (simp add: randint_def)
  from i have "0 < 1 + int i" "1 + int i \<le> 0 + sum_list (map snd inner)"
    by (simp_all add: dict_values_def)
  from pick_cumulative_some[OF this] obtain nc where
    nc: "pick_cumulative inner (1 + int i) 0 = Some nc"
    by auto
  have w: "walk_1768561810934 R m (Suc n) ctx result g
             = walk_1768561810934 R m n (py_slice_from ctx 1 @ nc) (result @ [nc]) g'"
    using assms(1) ne ri nc by (simp add: Let_def)
  have iff: "pick_cumulative inner (1 + int j) 0 = Some ch
               \<longleftrightarrow> weight_before inner ch \<le> int j \<and> int j < weight_before inner ch + c"
    if "(ch, c) \<in> set inner" for ch c and j :: nat
    using pick_cumulative_iff[OF d p0 that, of 0 "1 + int j"] by auto
  have a: "nc = ch \<longleftrightarrow> weight_before inner ch \<le> int i \<and> int i < weight_before inner ch + c"
    if "(ch, c) \<in> set inner" for ch c
    using iff[OF that, of i] nc by auto
  have b: "card {j. j < nat ?total \<and> pick_cumulative inner (1 + int j) 0 = Some ch} = nat c"
    if mem: "(ch, c) \<in> set inner" for ch c
  proof -
    from weight_before_bounds[OF d p0 mem] have
      wb: "0 \<le> weight_before inner ch" "weight_before inner ch + c \<le> ?total"
      by (auto simp: dict_values_def)
    have "(j < nat ?total \<and> pick_cumulative inner (1 + int j) 0 = Some ch)
            \<longleftrightarrow> (nat (weight_before inner ch) \<le> j \<and> j < nat (weight_before inner ch + c))"
      for j
      unfolding iff[OF mem] using wb by arith
    then have "{j. j < nat ?total \<and> pick_cumulative inner (1 + int j) 0 = Some ch}
            = {nat (weight_before inner ch) ..< nat (weight_before inner ch + c)}"
      by (simp add: set_eq_iff)
    then show ?thesis using wb by (simp add: nat_diff_distrib' nat_add_distrib)
  qed
  from i nc w a b show ?thesis by blast
qed

lemma choice_by_index:
  "choice R [x, y] g = (Inr ([x, y] ! fst (rng_randbelow R 2 g)), snd (rng_randbelow R 2 g))"
  by (simp add: choice_def numeral_2_eq_2 split: prod.splits)

text \<open>
  C5.  The walk has to weigh the candidates by their counts.  In the copy
  batch_1770643297744/python-ai-stdlib-oracle_run_03 the next character is the key at
  the position that the generator draws below the number of keys, whatever the counts
  \<open>cb\<close> and \<open>cc\<close> are: the counts do not occur in the result.  After \<open>a\<close>, with \<open>b\<close>
  counted three times and \<open>c\<close> once, \<open>c\<close> follows on one of the two values of the draw,
  as it does for the seed 7 of the generator \<open>lcg\<close>.
\<close>

theorem generate_1770643297744_03_ignores_counts:
  "generate_1770643297744_03 R \<lparr>order = 1, transitions = [(''a'', [(''b'', cb), (''c'', cc)])]\<rparr>
      2 (Some ''a'') (Some S) g
     = (Inr (''a'' @ [''b'', ''c''] ! fst (rng_randbelow R 2 (rng_seed R S))),
        snd (rng_randbelow R 2 (rng_seed R S)))
   \<and> generate_1770643297744_03 lcg \<lparr>order = 1, transitions = [(''a'', [(''b'', 3), (''c'', 1)])]\<rparr>
      2 (Some ''a'') (Some 7) 0 = (Inr ''ac'', 6)"
proof -
  let ?m = "\<lparr>order = 1, transitions = [(''a'', [(''b'', cb), (''c'', cc)])]\<rparr> :: table MarkovChain"
  let ?m' = "\<lparr>order = 1, transitions = [(''a'', [(''b'', 3), (''c'', 1)])]\<rparr> :: table MarkovChain"
  have "generate_1770643297744_03 R ?m 2 (Some ''a'') (Some S) g
     = (Inr (''a'' @ [''b'', ''c''] ! fst (rng_randbelow R 2 (rng_seed R S))),
        snd (rng_randbelow R 2 (rng_seed R S)))"
    by (simp add: generate_1770643297744_03_def dict_contains_def dict_get_def py_list_def
          dict_keys_def choice_by_index Let_def)
  moreover have "generate_1770643297744_03 lcg ?m' 2 (Some ''a'') (Some 7) 0 = (Inr ''ac'', 6)"
    by code_simp
  ultimately show ?thesis by simp
qed

section \<open>The walk that stops at a dead end\<close>

lemma py_slice_window:
  "k \<le> j \<Longrightarrow> j \<le> length xs \<Longrightarrow> py_slice xs (int j - int k) (int j) = take k (drop (j - k) xs)"
  by (simp add: py_slice_def py_clamp_def Let_def nat_diff_distrib')

lemma py_slice_prefix: "k \<le> length xs \<Longrightarrow> py_slice xs 0 (int k) = take k xs"
  by (simp add: py_slice_def py_clamp_def Let_def)

text \<open>
  In run_1768561810934 a context with no entry ends the walk: what has been collected
  is returned, and the generator is not asked again.
\<close>

lemma walk_1768561810934_dead_end:
  "\<not> dict_contains (transitions m) ctx \<Longrightarrow>
   walk_1768561810934 R m n ctx result g = (Inr (concat result), g)"
  by (cases n) (simp_all add: dict_contains_def)

lemma walk_1768561810934_returns:
  assumes "rng_ok R" "wf_table (int k) (transitions m)" "0 < k" "order m = int k"
    "k \<le> length (concat result)" "ctx = drop (length (concat result) - k) (concat result)"
  shows "\<exists>out g'. walk_1768561810934 R m n ctx result g = (Inr out, g')
           \<and> take (length (concat result)) out = concat result
           \<and> length (concat result) \<le> length out
           \<and> length out \<le> length (concat result) + n
           \<and> (\<forall>j. length (concat result) \<le> j \<and> j < length out \<longrightarrow>
                 (\<exists>c. entry (transitions m) (take k (drop (j - k) out)) [out ! j] = Some c))
           \<and> (length out < length (concat result) + n
                \<longrightarrow> \<not> dict_contains (transitions m) (drop (length out - k) out))"
  using assms(5,6)
proof (induction n arbitrary: ctx result g)
  case 0
  then show ?case by auto
next
  case (Suc n)
  let ?L = "length (concat result)"
  show ?case
  proof (cases "dict_get (transitions m) ctx")
    case None
    with Suc.prems show ?thesis by (auto simp: dict_contains_def)
  next
    case (Some inner)
    from wf_table_lookup[OF assms(2) Some] have wf: "wf_inner inner" by simp
    then have ne: "inner \<noteq> []" by (simp add: wf_inner_def)
    let ?total = "sum_list (dict_values inner)"
    from wf_inner_total[OF wf] have tot: "1 \<le> ?total" by (simp add: dict_values_def)
    obtain i g1 where rb: "rng_randbelow R (nat ?total) g = (i, g1)"
      by (cases "rng_randbelow R (nat ?total) g")
    from assms(1) tot have "fst (rng_randbelow R (nat ?total) g) < nat ?total"
      by (simp add: rng_ok_def)
    with rb have i: "int i < ?total" by simp
    from tot rb have ri: "randint R 1 ?total g = (Inr (1 + int i), g1)"
      by (simp add: randint_def)
    from i have "0 < 1 + int i" "1 + int i \<le> 0 + sum_list (map snd inner)"
      by (simp_all add: dict_values_def)
    from pick_cumulative_some[OF this] obtain nc where
      nc: "nc \<in> fst ` set inner" "pick_cumulative inner (1 + int i) 0 = Some nc"
      by auto
    from wf_inner_key_length[OF wf nc(1)] have l1: "length nc = 1" .
    then obtain x where x: "nc = [x]" by (cases nc) auto
    from nc(1) have "map_of inner nc \<noteq> None" by (simp add: map_of_eq_None_iff)
    then obtain cnt where cnt: "dict_get inner nc = Some cnt"
      by (auto simp: dict_get_def)
    let ?r = "result @ [nc]"
    let ?c = "py_slice_from ctx 1 @ nc"
    have len: "length (concat ?r) = Suc ?L" using l1 by simp
    have k': "k \<le> length (concat ?r)" using Suc.prems(1) len by simp
    have c': "?c = drop (length (concat ?r) - k) (concat ?r)"
      using Suc.prems assms(3) l1 by (simp add: py_slice_from_one Suc_diff_le)
    from Suc.IH[OF k' c', of g1] obtain out g' where
      w: "walk_1768561810934 R m n ?c ?r g1 = (Inr out, g')"
      and t: "take (length (concat ?r)) out = concat ?r"
      and o1: "length (concat ?r) \<le> length out"
      and o2: "length out \<le> length (concat ?r) + n"
      and e: "\<forall>j. length (concat ?r) \<le> j \<and> j < length out \<longrightarrow>
                 (\<exists>c. entry (transitions m) (take k (drop (j - k) out)) [out ! j] = Some c)"
      and d: "length out < length (concat ?r) + n
                \<longrightarrow> \<not> dict_contains (transitions m) (drop (length out - k) out)"
      by blast
    have t1: "take (Suc ?L) out = concat result @ [x]" using t len x by simp
    have lo: "?L < length out" using o1 len by simp
    have tL: "take ?L out = concat result"
    proof -
      have "take ?L out = take ?L (take (Suc ?L) out)" by simp
      also have "\<dots> = concat result" unfolding t1 by simp
      finally show ?thesis .
    qed
    have oL: "out ! ?L = x"
    proof -
      have "out ! ?L = take (Suc ?L) out ! ?L" by simp
      also have "\<dots> = x" unfolding t1 by simp
      finally show ?thesis .
    qed
    have wL: "take k (drop (?L - k) out) = ctx"
    proof -
      have "take k (drop (?L - k) out) = drop (?L - k) (take ?L out)"
        using Suc.prems(1) by (simp add: drop_take)
      with tL Suc.prems(2) show ?thesis by simp
    qed
    have eL: "entry (transitions m) (take k (drop (?L - k) out)) [out ! ?L] = Some cnt"
      unfolding wL oL using Some cnt x by (simp add: entry_def)
    have e': "\<exists>c. entry (transitions m) (take k (drop (j - k) out)) [out ! j] = Some c"
      if "?L \<le> j \<and> j < length out" for j
    proof (cases "j = ?L")
      case True
      with eL show ?thesis by blast
    next
      case False
      with that len have "length (concat ?r) \<le> j \<and> j < length out" by simp
      with e show ?thesis by blast
    qed
    have "walk_1768561810934 R m (Suc n) ctx result g = (Inr out, g')"
      using Some ne ri nc(2) w by (simp add: Let_def)
    moreover have "?L \<le> length out" using lo by simp
    moreover have "length out \<le> ?L + Suc n" using o2 len by simp
    moreover have "length out < ?L + Suc n
                \<longrightarrow> \<not> dict_contains (transitions m) (drop (length out - k) out)"
      using d len by simp
    ultimately show ?thesis using tL e' by blast
  qed
qed

text \<open>
  C6.  \<open>generate\<close> of run_1768561810934, the cited copy that tests for a missing
  context, on a non-empty table as training builds it: the call returns a string and
  raises nothing.  The string begins with the starting context, whole, and has at
  least \<open>order\<close> and at most \<open>max length order\<close> characters.  Every character after the
  starting context has an entry in the table under the \<open>order\<close> characters before it, so
  nothing is appended after a context that is not a key; and a result of fewer than
  \<open>length\<close> characters ends in a context that is not a key, where the walk stopped.
\<close>

theorem generate_truncates:
  assumes "transitions m \<noteq> []" "rng_ok R" "wf_table (order m) (transitions m)" "1 \<le> order m"
  shows "\<exists>ctx g1 out g'.
           initial_context R m seed (reseed R random_seed g) = (Inr ctx, g1)
         \<and> generate_1768561810934 R m len seed random_seed g = (Inr out, g')
         \<and> py_slice out 0 (order m) = ctx
         \<and> order m \<le> int (length out)
         \<and> int (length out) \<le> max len (order m)
         \<and> (\<forall>j. order m \<le> int j \<and> j < length out \<longrightarrow>
               (\<exists>c. entry (transitions m) (py_slice out (int j - order m) (int j)) [out ! j]
                      = Some c))
         \<and> (int (length out) < len
              \<longrightarrow> \<not> dict_contains (transitions m) (py_slice_from out (- order m)))"
proof -
  define k where "k = nat (order m)"
  with assms(4) have k: "order m = int k" "0 < k" by auto
  have "\<exists>ctx g1. initial_context R m seed (reseed R random_seed g) = (Inr ctx, g1)
          \<and> length ctx = k"
  proof (cases "\<exists>s. seed = Some s \<and> int (length s) = order m")
    case True
    then show ?thesis by (auto simp: initial_context_def k)
  next
    case False
    then have "seed = None \<or> (\<exists>s. seed = Some s \<and> int (length s) \<noteq> order m)"
      by (cases seed) auto
    from initial_context_choice[OF this assms(1,2), of "reseed R random_seed g"]
      wf_table_key_length[OF assms(3)]
    show ?thesis by (auto simp: k)
  qed
  then obtain ctx g1 where
    ic: "initial_context R m seed (reseed R random_seed g) = (Inr ctx, g1)"
    and lc: "length ctx = k"
    by blast
  have wf: "wf_table (int k) (transitions m)" using assms(3) k by simp
  have a: "k \<le> length (concat (py_list ctx))" by (simp add: concat_py_list lc)
  have b: "ctx = drop (length (concat (py_list ctx)) - k) (concat (py_list ctx))"
    by (simp add: concat_py_list lc)
  from walk_1768561810934_returns[OF assms(2) wf k(2) k(1) a b, of "nat (len - order m)" g1]
  obtain out g' where
    w: "walk_1768561810934 R m (nat (len - order m)) ctx (py_list ctx) g1 = (Inr out, g')"
    and o0: "take k out = ctx"
    and o1: "length out \<le> k + nat (len - order m)"
    and o2: "k \<le> length out"
    and o3: "\<forall>j. k \<le> j \<and> j < length out \<longrightarrow>
               (\<exists>c. entry (transitions m) (take k (drop (j - k) out)) [out ! j] = Some c)"
    and o4: "length out < k + nat (len - order m)
               \<longrightarrow> \<not> dict_contains (transitions m) (drop (length out - k) out)"
    by (auto simp: concat_py_list lc)
  have g: "generate_1768561810934 R m len seed random_seed g = (Inr out, g')"
    using ic w by (simp add: generate_1768561810934_def)
  have s: "py_slice_from out (- order m) = drop (length out - k) out"
    using py_slice_from_last[OF o2 k(2)] k by simp
  have p: "py_slice out 0 (order m) = ctx"
    using py_slice_prefix[OF o2] o0 k by simp
  have "order m \<le> int (length out)" using o2 k by simp
  moreover have "int (length out) \<le> max len (order m)" using o1 k by auto
  moreover have "\<exists>c. entry (transitions m) (py_slice out (int j - order m) (int j)) [out ! j]
                      = Some c"
    if "order m \<le> int j \<and> j < length out" for j
  proof -
    from that k have j: "k \<le> j" "j \<le> length out" "k \<le> j \<and> j < length out" by auto
    from py_slice_window[OF j(1,2)] k
    have "py_slice out (int j - order m) (int j) = take k (drop (j - k) out)" by simp
    with o3 j(3) show ?thesis by simp
  qed
  moreover have "int (length out) < len
       \<longrightarrow> \<not> dict_contains (transitions m) (py_slice_from out (- order m))"
    using o4 s k by auto
  ultimately show ?thesis using ic g p by blast
qed

theorem generate_truncates_witness:
  "transitions (\<lparr>order = 2, transitions = [(''ab'', [(''c'', 1)])]\<rparr> :: table MarkovChain) \<noteq> []
   \<and> rng_ok lcg
   \<and> wf_table 2 [(''ab'', [(''c'', 1)])]
   \<and> initial_context lcg \<lparr>order = 2, transitions = [(''ab'', [(''c'', 1)])]\<rparr> None 0
        = (Inr ''ab'', 3)
   \<and> generate_1768561810934 lcg \<lparr>order = 2, transitions = [(''ab'', [(''c'', 1)])]\<rparr>
        5 None None 0 = (Inr ''abc'', 2)
   \<and> py_slice ''abc'' 0 2 = ''ab''
   \<and> py_slice ''abc'' (2 - 2) 2 = ''ab''
   \<and> (\<exists>c. entry [(''ab'', [(''c'', 1)])] ''ab'' [''abc'' ! 2] = Some c)
   \<and> int (length ''abc'') < 5
   \<and> py_slice_from ''abc'' (- 2) = ''bc''
   \<and> \<not> dict_contains [(''ab'', [(''c'', 1::int)])] ''bc''"
proof -
  let ?m = "\<lparr>order = 2, transitions = [(''ab'', [(''c'', 1)])]\<rparr> :: table MarkovChain"
  have h1: "transitions ?m \<noteq> []" by simp
  have h3: "wf_table (order ?m) (transitions ?m)"
    by (simp add: wf_table_def wf_inner_def)
  have h4: "1 \<le> order ?m" by simp
  have ic: "initial_context lcg ?m None (reseed lcg None 0) = (Inr ''ab'', 3)"
    by code_simp
  have e: "generate_1768561810934 lcg ?m 5 None None 0 = (Inr ''abc'', 2)"
    by code_simp
  have p: "py_slice_from ''abc'' (- 2) = ''bc''" "py_slice ''abc'' 0 2 = ''ab''"
    "py_slice ''abc'' (2 - 2) 2 = ''ab''"
    by code_simp+
  from generate_truncates[OF h1 rng_ok_lcg h3 h4, where seed = None and random_seed = None
      and g = 0 and len = 5] ic e
  have t: "(\<forall>j. order ?m \<le> int j \<and> j < length ''abc'' \<longrightarrow>
               (\<exists>c. entry (transitions ?m) (py_slice ''abc'' (int j - order ?m) (int j))
                       [''abc'' ! j] = Some c))
         \<and> (int (length ''abc'') < 5
              \<longrightarrow> \<not> dict_contains (transitions ?m) (py_slice_from ''abc'' (- order ?m)))"
    by auto
  from t have d: "\<not> dict_contains (transitions ?m) ''bc''" using p(1) by simp
  have "order ?m \<le> int 2 \<and> (2::nat) < length ''abc''" by simp
  with t have "\<exists>c. entry (transitions ?m) (py_slice ''abc'' (int 2 - order ?m) (int 2))
                       [''abc'' ! 2] = Some c"
    by blast
  then have c: "\<exists>c. entry (transitions ?m) ''ab'' [''abc'' ! 2] = Some c" using p(2) by simp
  from h1 h3 ic e p d c rng_ok_lcg show ?thesis by (simp add: reseed_def)
qed

text \<open>
  No copy clips the starting context: with order 2 and \<open>length = 1\<close> each of the three
  copies returns two characters.
\<close>

theorem generate_exceeds_length:
  "generate lcg \<lparr>order = 2, transitions = [(''ab'', [(''c'', 1)])]\<rparr> 1 None None 0
     = (Inr ''ab'', 3)
   \<and> generate_1768561810934 lcg \<lparr>order = 2, transitions = [(''ab'', [(''c'', 1)])]\<rparr> 1 None None 0
     = (Inr ''ab'', 3)
   \<and> generate_1768562193727 lcg \<lparr>order = 2, transitions = [(''ab'', [(''c'', 1)])]\<rparr> 1 None None 0
     = (Inr ''ab'', 3)
   \<and> \<not> int (length ''ab'') \<le> 1"
  by code_simp

text \<open>
  The first cited copy, release_gate_after_best_patch_177182/python-ai-stdlib-oracle_run_09,
  indexes the table without a test.  At the dead end \<open>bc\<close> it raises \<open>KeyError\<close>, where
  run_1768561810934 and run_1768562193727 return the three characters they have.
\<close>

lemma generate_raises_at_dead_end:
  "generate lcg \<lparr>order = 2, transitions = [(''ab'', [(''c'', 1)])]\<rparr> 5 (Some ''ab'') None 0
     = (Inl KeyError, 3)
   \<and> generate_1768561810934 lcg \<lparr>order = 2, transitions = [(''ab'', [(''c'', 1)])]\<rparr>
        5 (Some ''ab'') None 0 = (Inr ''abc'', 3)
   \<and> generate_1768562193727 lcg \<lparr>order = 2, transitions = [(''ab'', [(''c'', 1)])]\<rparr>
        5 (Some ''ab'') None 0 = (Inr ''abc'', 3)"
  by code_simp

end
